theory Spec2Isabelle
  imports Main
begin

section \<open>Data model\<close>

text \<open>
  The program drives an external browser-automation engine. Every call into that engine
  either returns or raises; the model reads the behaviour of the engine from a script
  (one record per login attempt, one per engagement cycle) and records the calls made in
  a trace of events. A raise in the model is an instance of Python's \<open>Exception\<close>,
  which is what \<open>except Exception\<close> catches; cancellation and keyboard interrupts, which
  are not, lie outside the model.
\<close>

datatype 'a outcome = Returns 'a | Raises

text \<open>A Python \<open>str\<close> is a sequence of Unicode code points.\<close>

type_synonym pystr = "nat list"

record account =
  email :: string
  password :: string

record proxy =
  server :: string

record BotConfig =
  max_login_attempts :: int
  cycles_per_account :: int
  min_next_clicks :: int
  max_next_clicks :: int
  max_concurrent_accounts :: int

text \<open>
  Events carry the number of the login attempt whose driver instance they concern. The
  flag of a close or stop event says whether the call returned normally.
\<close>

datatype event =
    LoginAttempt int
  | DriverStart int
  | BrowserLaunch int
  | BrowserClose int bool
  | DriverStop int bool
  | LoginSuccess int
  | LoginGiveUp
  | VideosBegin
  | Goto int
  | OpenFirstVideo int
  | OpenComments int bool
  | CommentsFailedLog int
  | PostComment int pystr bool
  | ReplyToComment int pystr bool
  | NextVideo int int
  | VideosDone bool
  | SessionClosedLog
  | CloseErrorLog

section \<open>Login with retry\<close>

text \<open>
  \<open>setup_browser\<close> starts the driver, launches the browser, then creates the context
  and the page and applies the stealth configuration. It returns its handles only when
  all of that succeeded; when a step raises, the caller receives nothing.
\<close>

datatype setup_script = SetupOk | RaisesAtStart | RaisesAtLaunch | RaisesAfterLaunch

text \<open>
  The script of one login attempt: how \<open>setup_browser\<close> ends; whether one of the calls
  between it and the test of the URL raises (creating the solver, navigation, filling the
  form, the click, the two CAPTCHA calls); whether \<open>"login"\<close> occurs in \<open>page.url\<close>;
  whether \<open>browser.close()\<close> and \<open>playwright.stop()\<close> raise in the \<open>else\<close> branch, and
  whether they raise in the exception handler.
\<close>

record attempt =
  setup_script :: setup_script
  steps_raise :: bool
  url_has_login :: bool
  close_raises :: bool
  stop_raises :: bool
  handler_close_raises :: bool
  handler_stop_raises :: bool

fun setup_browser :: "setup_script \<Rightarrow> int \<Rightarrow> unit outcome \<times> event list" where
  "setup_browser RaisesAtStart n = (Raises, [])"
| "setup_browser RaisesAtLaunch n = (Raises, [DriverStart n])"
| "setup_browser RaisesAfterLaunch n = (Raises, [DriverStart n, BrowserLaunch n])"
| "setup_browser SetupOk n = (Returns (), [DriverStart n, BrowserLaunch n])"

record session =
  driver_instance :: int
  sess_account :: account
  sess_proxy :: "proxy option"

text \<open>
  The \<open>except Exception\<close> handler of one attempt. \<open>held\<close> says whether the names
  \<open>browser\<close> and \<open>playwright\<close> of \<open>login\<close> are bound (they are bound together, by the
  tuple assignment from \<open>setup_browser\<close>). The result is the trace of the handler and
  whether the handler itself raised.
\<close>

definition login_handler :: "attempt \<Rightarrow> int \<Rightarrow> bool \<Rightarrow> unit outcome \<times> event list" where
  "login_handler a n held =
     (if \<not> held then (Returns (), [])
      else if handler_close_raises a then (Raises, [BrowserClose n False])
      else if handler_stop_raises a then (Raises, [BrowserClose n True, DriverStop n False])
      else (Returns (), [BrowserClose n True, DriverStop n True]))"

text \<open>
  The body of the \<open>try\<close> of one attempt: \<open>Returns True\<close> is the successful login,
  \<open>Returns False\<close> the failed attempt whose \<open>else\<close> branch released the instance,
  \<open>Raises\<close> an exception, together with whether the handles were bound by then.
\<close>

definition login_try :: "attempt \<Rightarrow> int \<Rightarrow> (bool outcome \<times> bool) \<times> event list" where
  "login_try a n =
     (case setup_browser (setup_script a) n of
        (Raises, evs) \<Rightarrow> ((Raises, False), LoginAttempt n # evs)
      | (Returns u, evs) \<Rightarrow>
          (if steps_raise a then ((Raises, True), LoginAttempt n # evs)
           else if \<not> url_has_login a then
             ((Returns True, True), LoginAttempt n # evs @ [LoginSuccess n])
           else if close_raises a then
             ((Raises, True), LoginAttempt n # evs @ [BrowserClose n False])
           else if stop_raises a then
             ((Raises, True), LoginAttempt n # evs @ [BrowserClose n True, DriverStop n False])
           else
             ((Returns False, True), LoginAttempt n # evs @ [BrowserClose n True, DriverStop n True])))"

text \<open>The \<open>while\<close> loop of \<open>login\<close>, from attempt \<open>cur\<close> on.\<close>

function login_loop ::
  "BotConfig \<Rightarrow> (int \<Rightarrow> attempt) \<Rightarrow> account \<Rightarrow> proxy option \<Rightarrow> int \<Rightarrow> event list
     \<Rightarrow> session option outcome \<times> event list" where
  "login_loop cfg w acc px cur tr =
     (if cur \<le> max_login_attempts cfg then
        (case login_try (w cur) cur of
           ((Returns True, held), evs) \<Rightarrow>
             (Returns (Some \<lparr>driver_instance = cur, sess_account = acc, sess_proxy = px\<rparr>), tr @ evs)
         | ((Returns False, held), evs) \<Rightarrow> login_loop cfg w acc px (cur + 1) (tr @ evs)
         | ((Raises, held), evs) \<Rightarrow>
             (case login_handler (w cur) cur held of
                (Raises, hevs) \<Rightarrow> (Raises, tr @ evs @ hevs)
              | (Returns u, hevs) \<Rightarrow> login_loop cfg w acc px (cur + 1) (tr @ evs @ hevs)))
      else (Returns None, tr @ [LoginGiveUp]))"
  by pat_completeness auto
termination
  by (relation "measure (\<lambda>(cfg, w, acc, px, cur, tr). nat (max_login_attempts cfg + 1 - cur))") auto

declare login_loop.simps [simp del]

definition login ::
  "BotConfig \<Rightarrow> (int \<Rightarrow> attempt) \<Rightarrow> account \<Rightarrow> proxy option \<Rightarrow> session option outcome \<times> event list" where
  "login cfg w acc px = login_loop cfg w acc px 1 []"

section \<open>Engagement cycles\<close>

text \<open>
  \<open>random.choice(seq)\<close> raises \<open>IndexError\<close> on an empty sequence;
  \<open>random.randint(a, b)\<close> raises \<open>ValueError\<close> when \<open>a > b\<close>. The random source is the
  natural number \<open>r\<close>.
\<close>

definition random_choice :: "'a list \<Rightarrow> nat \<Rightarrow> 'a outcome" where
  "random_choice xs r = (if xs = [] then Raises else Returns (xs ! (r mod length xs)))"

definition random_randint :: "int \<Rightarrow> int \<Rightarrow> nat \<Rightarrow> int outcome" where
  "random_randint a b r = (if a > b then Raises else Returns (a + int r mod (b - a + 1)))"

text \<open>
  The script of one cycle. The helpers \<open>_open_first_video\<close>, \<open>_open_comments\<close>,
  \<open>_post_comment\<close>, \<open>_reply_to_comment\<close> and \<open>_click_next_button\<close> each wrap their
  whole body in \<open>try ... except Exception: return False\<close>, so they report a boolean and
  never raise. The two screenshots are taken inside their own \<open>try\<close> and have no effect
  on the control flow. Navigation and the CAPTCHA solver are called unprotected.
\<close>

record cycle =
  goto_raises :: bool
  captcha_feed_raises :: bool
  first_video_opened :: bool
  captcha_video_raises :: bool
  comments_opened :: bool
  captcha_panel_raises :: bool
  comment_pick :: nat
  comment_posted :: bool
  captcha_comment_raises :: bool
  reply_pick :: nat
  reply_posted :: bool
  clicks_pick :: nat
  next_clicked :: bool

text \<open>The branch \<open>if comments_opened:\<close> of one cycle.\<close>

definition comment_steps :: "pystr list \<Rightarrow> cycle \<Rightarrow> int \<Rightarrow> unit outcome \<times> event list" where
  "comment_steps comments cy c =
     (if captcha_panel_raises cy then (Raises, [])
      else
        (case random_choice comments (comment_pick cy) of
           Raises \<Rightarrow> (Raises, [])
         | Returns comment_text \<Rightarrow>
             (if captcha_comment_raises cy
              then (Raises, [PostComment c comment_text (comment_posted cy)])
              else
                (case random_choice comments (reply_pick cy) of
                   Raises \<Rightarrow> (Raises, [PostComment c comment_text (comment_posted cy)])
                 | Returns reply_text \<Rightarrow>
                     (Returns (), [PostComment c comment_text (comment_posted cy),
                                   ReplyToComment c reply_text (reply_posted cy)])))))"

text \<open>The steps of a cycle after \<open>_open_comments\<close> has returned.\<close>

definition after_open_comments ::
  "BotConfig \<Rightarrow> pystr list \<Rightarrow> cycle \<Rightarrow> int \<Rightarrow> unit outcome \<times> event list" where
  "after_open_comments cfg comments cy c =
     (case (if comments_opened cy then comment_steps comments cy c
            else (Returns (), [CommentsFailedLog c])) of
        (Raises, evs) \<Rightarrow> (Raises, evs)
      | (Returns u, evs) \<Rightarrow>
          (case random_randint (min_next_clicks cfg) (max_next_clicks cfg) (clicks_pick cy) of
             Raises \<Rightarrow> (Raises, evs)
           | Returns clicks_count \<Rightarrow> (Returns (), evs @ [NextVideo c clicks_count])))"

definition run_cycle :: "BotConfig \<Rightarrow> pystr list \<Rightarrow> cycle \<Rightarrow> int \<Rightarrow> unit outcome \<times> event list" where
  "run_cycle cfg comments cy c =
     (if goto_raises cy then (Raises, [Goto c])
      else if captcha_feed_raises cy then (Raises, [Goto c])
      else if captcha_video_raises cy then (Raises, [Goto c, OpenFirstVideo c])
      else
        (case after_open_comments cfg comments cy c of
           (r, evs) \<Rightarrow> (r, [Goto c, OpenFirstVideo c, OpenComments c (comments_opened cy)] @ evs)))"

fun cycles_loop ::
  "BotConfig \<Rightarrow> pystr list \<Rightarrow> (int \<Rightarrow> cycle) \<Rightarrow> int list \<Rightarrow> unit outcome \<times> event list" where
  "cycles_loop cfg comments w [] = (Returns (), [])"
| "cycles_loop cfg comments w (c # cs) =
     (case run_cycle cfg comments (w c) c of
        (Raises, evs) \<Rightarrow> (Raises, evs)
      | (Returns u, evs) \<Rightarrow>
          (case cycles_loop cfg comments w cs of (r, evs') \<Rightarrow> (r, evs @ evs')))"

text \<open>
  \<open>process_videos\<close> runs the cycles \<open>range(1, cycles_per_account + 1)\<close> inside one
  \<open>try\<close>; any exception ends the loop and the function returns \<open>False\<close>.
\<close>

definition process_videos ::
  "BotConfig \<Rightarrow> pystr list \<Rightarrow> (int \<Rightarrow> cycle) \<Rightarrow> bool \<times> event list" where
  "process_videos cfg comments w =
     (case cycles_loop cfg comments w [1..cycles_per_account cfg] of
        (Returns u, evs) \<Rightarrow> (True, VideosBegin # evs @ [VideosDone True])
      | (Raises, evs) \<Rightarrow> (False, VideosBegin # evs @ [VideosDone False]))"

section \<open>Releasing a session\<close>

text \<open>
  The body of the \<open>try\<close> of \<open>close_session\<close>: the browser is closed, then the driver is
  stopped, then the closing is logged. A handle returned by \<open>login\<close> is a non-empty
  dictionary holding both keys, so both membership tests succeed.
\<close>

definition close_session_try :: "bool \<Rightarrow> bool \<Rightarrow> session \<Rightarrow> unit outcome \<times> event list" where
  "close_session_try browser_close_raises driver_stop_raises s =
     (if browser_close_raises then (Raises, [BrowserClose (driver_instance s) False])
      else if driver_stop_raises then
        (Raises, [BrowserClose (driver_instance s) True, DriverStop (driver_instance s) False])
      else (Returns (), [BrowserClose (driver_instance s) True, DriverStop (driver_instance s) True,
                         SessionClosedLog]))"

text \<open>
  \<open>close_session\<close> itself: an exception of the body is caught and logged, and the function
  returns normally either way.
\<close>

definition close_session :: "bool \<Rightarrow> bool \<Rightarrow> session \<Rightarrow> unit outcome \<times> event list" where
  "close_session browser_close_raises driver_stop_raises s =
     (case close_session_try browser_close_raises driver_stop_raises s of
        (Raises, evs) \<Rightarrow> (Returns (), evs @ [CloseErrorLog])
      | (Returns u, evs) \<Rightarrow> (Returns (), evs))"

section \<open>Processing one account\<close>

record world =
  attempts :: "int \<Rightarrow> attempt"
  cycles :: "int \<Rightarrow> cycle"
  session_close_raises :: bool
  session_stop_raises :: bool

definition process_account ::
  "BotConfig \<Rightarrow> pystr list \<Rightarrow> world \<Rightarrow> account \<Rightarrow> proxy option \<Rightarrow> bool \<times> event list" where
  "process_account cfg comments w acc px =
     (case login cfg (attempts w) acc px of
        (Raises, tr) \<Rightarrow> (False, tr)
      | (Returns None, tr) \<Rightarrow> (False, tr)
      | (Returns (Some session_data), tr) \<Rightarrow>
          (case process_videos cfg comments (cycles w) of
             (videos_result, tr2) \<Rightarrow>
               (case close_session (session_close_raises w) (session_stop_raises w) session_data of
                  (Raises, tr3) \<Rightarrow> (False, tr @ tr2 @ tr3)
                | (Returns u, tr3) \<Rightarrow> (True, tr @ tr2 @ tr3))))"

section \<open>The comment pool\<close>

text \<open>The code points for which \<open>str.isspace\<close> holds; \<open>str.strip()\<close> removes them at both ends.\<close>

definition py_isspace :: "nat \<Rightarrow> bool" where
  "py_isspace c \<longleftrightarrow>
     (9 \<le> c \<and> c \<le> 13) \<or> (28 \<le> c \<and> c \<le> 32) \<or> c = 133 \<or> c = 160 \<or> c = 5760 \<or>
     (8192 \<le> c \<and> c \<le> 8202) \<or> c = 8232 \<or> c = 8233 \<or> c = 8239 \<or> c = 8287 \<or> c = 12288"

definition strip :: "pystr \<Rightarrow> pystr" where
  "strip s = rev (dropWhile py_isspace (rev (dropWhile py_isspace s)))"

text \<open>The built-in pool, as code points.\<close>

definition default_comments :: "pystr list" where
  "default_comments =
    [
     [1055, 1086, 1083, 1085, 1086, 1089, 1090, 1100, 1102, 32, 1089, 1086, 1075, 1083,
      1072, 1089, 1077, 1085, 32, 1089, 32, 1074, 1072, 1084, 1080, 33, 32, 128077],
     [1054, 1095, 1077, 1085, 1100, 32, 1080, 1085, 1090, 1077, 1088, 1077, 1089, 1085,
      1072, 1103, 32, 1090, 1086, 1095, 1082, 1072, 32, 1079, 1088, 1077, 1085, 1080, 1103,
      33],
     [1057, 1087, 1072, 1089, 1080, 1073, 1086, 32, 1079, 1072, 32, 1082, 1086, 1084, 1084,
      1077, 1085, 1090, 1072, 1088, 1080, 1081, 33, 32, 128522],
     [1042, 1099, 32, 1072, 1073, 1089, 1086, 1083, 1102, 1090, 1085, 1086, 32, 1087, 1088,
      1072, 1074, 1099, 33],
     [1069, 1090, 1086, 32, 1076, 1077, 1081, 1089, 1090, 1074, 1080, 1090, 1077, 1083,
      1100, 1085, 1086, 32, 1090, 1072, 1082, 33, 32, 128175],
     [1055, 1086, 1083, 1085, 1086, 1089, 1090, 1100, 1102, 32, 1087, 1086, 1076, 1076,
      1077, 1088, 1078, 1080, 1074, 1072, 1102, 33],
     [1054, 1090, 1083, 1080, 1095, 1085, 1099, 1081, 32, 1082, 1086, 1084, 1084, 1077,
      1085, 1090, 1072, 1088, 1080, 1081, 33, 32, 128079],
     [1057, 1086, 1075, 1083, 1072, 1089, 1077, 1085, 32, 1085, 1072, 32, 1074, 1089, 1077,
      32, 49, 48, 48, 37],
     [1058, 1072, 1082, 32, 1090, 1086, 1095, 1085, 1086, 32, 1089, 1082, 1072, 1079, 1072,
      1085, 1086, 33, 32, 128076],
     [1054, 1095, 1077, 1085, 1100, 32, 1093, 1086, 1088, 1086, 1096, 1086, 32, 1087, 1086,
      1076, 1084, 1077, 1095, 1077, 1085, 1086, 33]
    ]"

text \<open>
  \<open>read_comments\<close> is given what reading the comments file produces: its lines, or an
  exception (the file is missing, unreadable or not valid UTF-8).
\<close>

definition read_comments :: "pystr list outcome \<Rightarrow> pystr list" where
  "read_comments f =
     (case f of
        Returns file_lines \<Rightarrow> map strip (filter (\<lambda>line. strip line \<noteq> []) file_lines)
      | Raises \<Rightarrow> default_comments)"

section \<open>The orchestrator\<close>

text \<open>The loop of \<open>main\<close> over \<open>enumerate(accounts)\<close> that pairs each account with its proxy.\<close>

fun assign_proxies :: "account list \<Rightarrow> proxy list \<Rightarrow> nat \<Rightarrow> (account \<times> proxy option) list" where
  "assign_proxies [] proxies i = []"
| "assign_proxies (a # as) proxies i =
     (a, if proxies \<noteq> [] then Some (proxies ! (i mod length proxies)) else None)
       # assign_proxies as proxies (i + 1)"

text \<open>\<open>asyncio.Semaphore(value)\<close> raises \<open>ValueError\<close> for a negative initial value.\<close>

definition Semaphore :: "int \<Rightarrow> nat outcome" where
  "Semaphore v = (if v < 0 then Raises else Returns (nat v))"

text \<open>
  What \<open>process_with_semaphore\<close> does inside \<open>async with semaphore\<close>: it awaits
  \<open>process_account\<close>, logs the duration and returns the result unchanged. The gate around
  this body is the subject of \<open>task_actions\<close> below.
\<close>

definition process_with_semaphore ::
  "BotConfig \<Rightarrow> pystr list \<Rightarrow> world \<Rightarrow> account \<Rightarrow> proxy option \<Rightarrow> bool outcome \<times> event list" where
  "process_with_semaphore cfg comments w acc px =
     (case process_account cfg comments w acc px of (result, tr) \<Rightarrow> (Returns result, tr))"

record report =
  results :: "bool outcome list"
  processed :: nat
  success_count :: nat

text \<open>
  What a call of \<open>main\<close> ends in: the early return for an empty account list, the
  exception of the semaphore constructor, no return at all (with zero permits every task
  waits at the gate and \<open>gather\<close> never completes), or the final summary. Each task runs
  against the world of its own account: the tasks share the configuration, the comment
  pool and the gate only.
\<close>

datatype main_result = NoAccounts | SemaphoreError | Blocked | Summary report

definition main ::
  "BotConfig \<Rightarrow> pystr list \<Rightarrow> account list \<Rightarrow> proxy list \<Rightarrow> (nat \<Rightarrow> world) \<Rightarrow> main_result" where
  "main cfg comments accounts proxies ws =
     (if accounts = [] then NoAccounts
      else
        (case Semaphore (max_concurrent_accounts cfg) of
           Raises \<Rightarrow> SemaphoreError
         | Returns permits_left \<Rightarrow>
             (if permits_left = 0 then Blocked
              else
                (let tasks = assign_proxies accounts proxies 0;
                     rs = map (\<lambda>(i, (acc, px)). fst (process_with_semaphore cfg comments (ws i) acc px))
                            (List.enumerate 0 tasks)
                 in Summary \<lparr>results = rs, processed = length accounts,
                              success_count = length (filter (\<lambda>r. r = Returns True) rs)\<rparr>))))"

subsection \<open>The counting gate\<close>

text \<open>
  The coroutine \<open>process_with_semaphore\<close> as the sequence of its steps: entering
  \<open>async with semaphore\<close> acquires one unit, the body awaits \<open>process_account\<close>, whose
  calls into the engine are the suspension points of the task, and leaving the block
  releases one unit, by return and by exception alike.
\<close>

datatype gate_action = AcquireGate | SessionEvent event | ReleaseGate "bool outcome"

definition task_actions ::
  "BotConfig \<Rightarrow> pystr list \<Rightarrow> world \<Rightarrow> account \<Rightarrow> proxy option \<Rightarrow> gate_action list" where
  "task_actions cfg comments w acc px =
     (case process_with_semaphore cfg comments w acc px of
        (result, tr) \<Rightarrow> AcquireGate # map SessionEvent tr @ [ReleaseGate result])"

text \<open>The shape of such a task, for a body with trace \<open>tr\<close> and result \<open>r\<close>.\<close>

definition gated :: "event list \<Rightarrow> bool outcome \<Rightarrow> gate_action list" where
  "gated tr r = AcquireGate # map SessionEvent tr @ [ReleaseGate r]"

text \<open>
  The event loop under \<open>gather\<close>: the value of the semaphore, and for every task the
  steps it still has to take and the steps it has taken. A schedule names the task that
  runs next. \<open>Semaphore.acquire\<close> waits while the value is zero and then decrements it,
  so a task whose next step is the acquire cannot run while the value is zero;
  \<open>Semaphore.release\<close> increments the value, and like a step of the session it can
  always run.
\<close>

record loop_state =
  sem_value :: nat
  pending :: "gate_action list list"
  performed :: "gate_action list list"

fun run_action :: "nat \<Rightarrow> gate_action \<Rightarrow> nat option" where
  "run_action v AcquireGate = (if v = 0 then None else Some (v - 1))"
| "run_action v (SessionEvent e) = Some v"
| "run_action v (ReleaseGate r) = Some (v + 1)"

definition loop_step :: "loop_state \<Rightarrow> nat \<Rightarrow> loop_state option" where
  "loop_step st i =
     (if i < length (pending st) then
        (case pending st ! i of
           [] \<Rightarrow> None
         | a # rest \<Rightarrow>
             (case run_action (sem_value st) a of
                None \<Rightarrow> None
              | Some v \<Rightarrow>
                  Some \<lparr>sem_value = v, pending = (pending st)[i := rest],
                        performed = (performed st)[i := performed st ! i @ [a]]\<rparr>))
      else None)"


text \<open>The tasks that \<open>main\<close> hands to \<open>gather\<close>, none of them started, and the fresh semaphore.\<close>

definition gather_init ::
  "BotConfig \<Rightarrow> pystr list \<Rightarrow> (nat \<Rightarrow> world) \<Rightarrow> account list \<Rightarrow> proxy list \<Rightarrow> nat \<Rightarrow> loop_state" where
  "gather_init cfg comments ws accounts proxies c =
     \<lparr>sem_value = c,
      pending = map (\<lambda>(i, (acc, px)). task_actions cfg comments (ws i) acc px)
                  (List.enumerate 0 (assign_proxies accounts proxies 0)),
      performed = replicate (length accounts) []\<rparr>"










section \<open>Observations on traces\<close>

fun is_attempt :: "event \<Rightarrow> bool" where
  "is_attempt (LoginAttempt n) = True"
| "is_attempt e = False"

fun is_release :: "event \<Rightarrow> bool" where
  "is_release (DriverStop m b) = b"
| "is_release e = False"

fun is_close_of :: "int \<Rightarrow> event \<Rightarrow> bool" where
  "is_close_of n (BrowserClose m b) = (m = n)"
| "is_close_of n e = False"

fun is_stop_of :: "int \<Rightarrow> event \<Rightarrow> bool" where
  "is_stop_of n (DriverStop m b) = (m = n)"
| "is_stop_of n e = False"

text \<open>The events that only \<open>process_videos\<close> emits.\<close>

fun is_cycle_event :: "event \<Rightarrow> bool" where
  "is_cycle_event (LoginAttempt n) = False"
| "is_cycle_event (DriverStart n) = False"
| "is_cycle_event (BrowserLaunch n) = False"
| "is_cycle_event (BrowserClose n b) = False"
| "is_cycle_event (DriverStop n b) = False"
| "is_cycle_event (LoginSuccess n) = False"
| "is_cycle_event LoginGiveUp = False"
| "is_cycle_event SessionClosedLog = False"
| "is_cycle_event CloseErrorLog = False"
| "is_cycle_event e = True"

definition attempts_made :: "event list \<Rightarrow> nat" where
  "attempts_made tr = length (filter is_attempt tr)"

text \<open>A release is a driver stop that returned; in \<open>login\<close> it always follows the browser close.\<close>

definition releases_made :: "event list \<Rightarrow> nat" where
  "releases_made tr = length (filter is_release tr)"

definition close_calls :: "int \<Rightarrow> event list \<Rightarrow> nat" where
  "close_calls n tr = length (filter (is_close_of n) tr)"

definition stop_calls :: "int \<Rightarrow> event list \<Rightarrow> nat" where
  "stop_calls n tr = length (filter (is_stop_of n) tr)"

text \<open>
  An attempt fails cleanly when its setup completes, the attempt then fails (a step raises,
  or the URL still holds the login marker), and the close and stop calls that this failure
  leads to return normally.
\<close>

definition fails_cleanly :: "attempt \<Rightarrow> bool" where
  "fails_cleanly a \<longleftrightarrow>
     setup_script a = SetupOk \<and>
     (if steps_raise a then \<not> handler_close_raises a \<and> \<not> handler_stop_raises a
      else url_has_login a \<and> \<not> close_raises a \<and> \<not> stop_raises a)"

text \<open>The trace of one attempt that fails cleanly.\<close>

definition attempt_block :: "int \<Rightarrow> event list" where
  "attempt_block n =
     [LoginAttempt n, DriverStart n, BrowserLaunch n, BrowserClose n True, DriverStop n True]"

section \<open>Concrete configurations and scripts\<close>

definition cfg2 :: BotConfig where
  "cfg2 = \<lparr>max_login_attempts = 2, cycles_per_account = 2, min_next_clicks = 1,
           max_next_clicks = 3, max_concurrent_accounts = 1\<rparr>"

definition cfg_bad_window :: BotConfig where
  "cfg_bad_window = cfg2\<lparr>min_next_clicks := 3, max_next_clicks := 1\<rparr>"

definition alice :: account where
  "alice = \<lparr>email = ''alice@example.com'', password = ''pw''\<rparr>"

definition bob :: account where
  "bob = \<lparr>email = ''bob@example.com'', password = ''pw2''\<rparr>"

definition carol :: account where
  "carol = \<lparr>email = ''carol@example.com'', password = ''pw3''\<rparr>"

definition proxy_a :: proxy where
  "proxy_a = \<lparr>server = ''http://10.0.0.1:8080''\<rparr>"

definition proxy_b :: proxy where
  "proxy_b = \<lparr>server = ''http://10.0.0.2:8080''\<rparr>"

definition pool2 :: "pystr list" where
  "pool2 = [[104, 105], [111, 107]]"

text \<open>An attempt after which the URL still holds the login marker.\<close>

definition marker_attempt :: attempt where
  "marker_attempt = \<lparr>setup_script = SetupOk, steps_raise = False, url_has_login = True,
     close_raises = False, stop_raises = False, handler_close_raises = False,
     handler_stop_raises = False\<rparr>"

text \<open>An attempt in which starting the driver raises.\<close>

definition start_fails_attempt :: attempt where
  "start_fails_attempt = marker_attempt\<lparr>setup_script := RaisesAtStart\<rparr>"

text \<open>
  An attempt that leaves the login marker in the URL, with a browser whose \<open>close()\<close>
  raises whenever it is called.
\<close>

definition close_fails_attempt :: attempt where
  "close_fails_attempt = \<lparr>setup_script = SetupOk, steps_raise = False, url_has_login = True,
     close_raises = True, stop_raises = False, handler_close_raises = True,
     handler_stop_raises = False\<rparr>"

definition good_attempt :: attempt where
  "good_attempt = \<lparr>setup_script = SetupOk, steps_raise = False, url_has_login = False,
     close_raises = False, stop_raises = False, handler_close_raises = False,
     handler_stop_raises = False\<rparr>"

definition quiet_cycle :: cycle where
  "quiet_cycle = \<lparr>goto_raises = False, captcha_feed_raises = False, first_video_opened = True,
     captcha_video_raises = False, comments_opened = True, captcha_panel_raises = False,
     comment_pick = 0, comment_posted = True, captcha_comment_raises = False, reply_pick = 1,
     reply_posted = True, clicks_pick = 1, next_clicked = True\<rparr>"

definition closed_panel_cycle :: cycle where
  "closed_panel_cycle = quiet_cycle\<lparr>comments_opened := False\<rparr>"

definition goto_fails_cycle :: cycle where
  "goto_fails_cycle = quiet_cycle\<lparr>goto_raises := True\<rparr>"

definition world_ok :: world where
  "world_ok = \<lparr>attempts = (\<lambda>n. good_attempt), cycles = (\<lambda>c. quiet_cycle),
     session_close_raises = False, session_stop_raises = False\<rparr>"

definition world_close_raises :: world where
  "world_close_raises = world_ok\<lparr>session_close_raises := True\<rparr>"

definition world_login_fails :: world where
  "world_login_fails = world_ok\<lparr>attempts := (\<lambda>n. marker_attempt)\<rparr>"

text \<open>The first login attempt fails, the second succeeds, and navigation raises in cycle 1.\<close>

definition world_videos_fail :: world where
  "world_videos_fail = \<lparr>attempts = (\<lambda>n. if n = 1 then marker_attempt else good_attempt),
     cycles = (\<lambda>c. goto_fails_cycle), session_close_raises = False, session_stop_raises = False\<rparr>"

definition world_closed_panel :: world where
  "world_closed_panel = world_ok\<lparr>cycles := (\<lambda>c. closed_panel_cycle)\<rparr>"

definition session1 :: session where
  "session1 = \<lparr>driver_instance = 1, sess_account = alice, sess_proxy = None\<rparr>"

definition blank_lines :: "pystr list" where
  "blank_lines = [[32, 10], [10], [9, 32, 13, 10]]"


section \<open>Login: every attempt fails\<close>

lemma login_round_fails_cleanly:
  assumes "fails_cleanly a"
  shows "(login_try a n = ((Raises, True), [LoginAttempt n, DriverStart n, BrowserLaunch n]) \<and>
          login_handler a n True = (Returns (), [BrowserClose n True, DriverStop n True])) \<or>
         login_try a n = ((Returns False, True), attempt_block n)"
  using assms by (auto simp: fails_cleanly_def login_try_def login_handler_def attempt_block_def)

lemma login_loop_all_fail:
  assumes "\<forall>n. cur \<le> n \<and> n \<le> max_login_attempts cfg \<longrightarrow> fails_cleanly (w n)"
  shows "login_loop cfg w acc px cur tr =
           (Returns None, tr @ concat (map attempt_block [cur..max_login_attempts cfg]) @ [LoginGiveUp])"
  using assms
proof (induction "nat (max_login_attempts cfg + 1 - cur)" arbitrary: cur tr)
  case 0
  then have "\<not> cur \<le> max_login_attempts cfg" by simp
  then show ?case by (simp add: login_loop.simps[of cfg w acc px cur tr])
next
  case (Suc k)
  then have le: "cur \<le> max_login_attempts cfg" by simp
  have fc: "fails_cleanly (w cur)" using le Suc.prems by simp
  have up: "[cur..max_login_attempts cfg] = cur # [cur + 1..max_login_attempts cfg]"
    using le by (simp add: upto_rec1)
  have IH: "login_loop cfg w acc px (cur + 1) tr' =
      (Returns None, tr' @ concat (map attempt_block [cur + 1..max_login_attempts cfg]) @ [LoginGiveUp])" for tr'
    using Suc.hyps(1)[of "cur + 1" tr'] Suc.hyps(2) Suc.prems by simp
  from login_round_fails_cleanly[OF fc, of cur] show ?case
  proof
    assume "login_try (w cur) cur = ((Raises, True), [LoginAttempt cur, DriverStart cur, BrowserLaunch cur]) \<and>
          login_handler (w cur) cur True = (Returns (), [BrowserClose cur True, DriverStop cur True])"
    then show ?thesis
      using le up IH by (simp add: login_loop.simps[of cfg w acc px cur tr] attempt_block_def)
  next
    assume "login_try (w cur) cur = ((Returns False, True), attempt_block cur)"
    then show ?thesis
      using le up IH by (simp add: login_loop.simps[of cfg w acc px cur tr])
  qed
qed

lemma filter_attempt_blocks:
  "length (filter is_attempt (concat (map attempt_block ns))) = length ns"
  by (induction ns) (simp_all add: attempt_block_def)

lemma filter_release_blocks:
  "length (filter is_release (concat (map attempt_block ns))) = length ns"
  by (induction ns) (simp_all add: attempt_block_def)

text \<open>
  Claim C3, as amended. When every attempt from 1 to \<open>max_login_attempts\<close> fails cleanly
  (its setup completes, it fails by an exception or by the login marker in the URL, and
  the close and stop calls return), \<open>login\<close> makes exactly that many attempts, closes the
  browser and stops the driver of each attempt before the next attempt begins, makes
  exactly that many releases, and returns \<open>None\<close>.
\<close>

theorem login_all_attempts_fail:
  assumes "\<forall>n. 1 \<le> n \<and> n \<le> max_login_attempts cfg \<longrightarrow> fails_cleanly (w n)"
  shows "login cfg w acc px =
           (Returns None, concat (map attempt_block [1..max_login_attempts cfg]) @ [LoginGiveUp])
         \<and> attempts_made (snd (login cfg w acc px)) = nat (max_login_attempts cfg)
         \<and> releases_made (snd (login cfg w acc px)) = nat (max_login_attempts cfg)"
proof -
  have eq: "login cfg w acc px =
      (Returns None, concat (map attempt_block [1..max_login_attempts cfg]) @ [LoginGiveUp])"
    unfolding login_def using login_loop_all_fail[OF assms, of acc px "[]"] by simp
  show ?thesis
    by (simp add: eq attempts_made_def releases_made_def filter_attempt_blocks filter_release_blocks)
qed

theorem login_all_attempts_fail_witness:
  "login cfg2 (\<lambda>n. marker_attempt) alice None =
       (Returns None,
        [LoginAttempt 1, DriverStart 1, BrowserLaunch 1, BrowserClose 1 True, DriverStop 1 True,
         LoginAttempt 2, DriverStart 2, BrowserLaunch 2, BrowserClose 2 True, DriverStop 2 True,
         LoginGiveUp])
   \<and> attempts_made (snd (login cfg2 (\<lambda>n. marker_attempt) alice None)) = 2
   \<and> releases_made (snd (login cfg2 (\<lambda>n. marker_attempt) alice None)) = 2"
proof -
  have h: "\<forall>n. 1 \<le> n \<and> n \<le> max_login_attempts cfg2 \<longrightarrow> fails_cleanly ((\<lambda>n. marker_attempt) n)"
    by (simp add: fails_cleanly_def marker_attempt_def)
  have m: "max_login_attempts cfg2 = 2"
    by (simp add: cfg2_def)
  have u: "[1..2::int] = [1, 2]"
    by (simp add: upto_rec1)
  show ?thesis
    using h login_all_attempts_fail[OF h, of alice None]
    by (simp add: m u attempt_block_def attempts_made_def releases_made_def)
qed

text \<open>
  Claim C3 as stated fails, with two attempts configured, in two ways. A collaborator
  whose driver fails to start on every attempt is tried twice and \<open>login\<close> returns
  \<open>None\<close>, but there is no instance to release and no release is made. A collaborator
  that leaves the login marker in the URL and whose browser raises on \<open>close()\<close> makes
  \<open>login\<close> raise during the first attempt.
\<close>

theorem login_release_counterexample:
  "max_login_attempts cfg2 = 2
   \<and> login cfg2 (\<lambda>n. start_fails_attempt) alice None =
       (Returns None, [LoginAttempt 1, LoginAttempt 2, LoginGiveUp])
   \<and> releases_made (snd (login cfg2 (\<lambda>n. start_fails_attempt) alice None)) = 0
   \<and> login cfg2 (\<lambda>n. close_fails_attempt) alice None =
       (Raises, [LoginAttempt 1, DriverStart 1, BrowserLaunch 1, BrowserClose 1 False,
                 BrowserClose 1 False])
   \<and> attempts_made (snd (login cfg2 (\<lambda>n. close_fails_attempt) alice None)) = 1
   \<and> releases_made (snd (login cfg2 (\<lambda>n. close_fails_attempt) alice None)) = 0"
  by code_simp

text \<open>
  A setup that raises after the driver was started leaves \<open>login\<close> without a handle to
  it: the handler finds both names unbound and the started driver is never stopped.
\<close>

lemma login_partial_setup_leaks:
  "login cfg2 (\<lambda>n. marker_attempt\<lparr>setup_script := RaisesAtLaunch\<rparr>) alice None =
     (Returns None, [LoginAttempt 1, DriverStart 1, LoginAttempt 2, DriverStart 2, LoginGiveUp])"
  by code_simp

section \<open>Login failure skips the cycles\<close>

lemma login_try_no_cycle_events: "filter is_cycle_event (snd (login_try a n)) = []"
  by (cases "setup_script a") (simp_all add: login_try_def)

lemma login_handler_no_cycle_events: "filter is_cycle_event (snd (login_handler a n held)) = []"
  by (simp add: login_handler_def)

lemma login_loop_cycle_events:
  "filter is_cycle_event (snd (login_loop cfg w acc px cur tr)) = filter is_cycle_event tr"
proof (induction "nat (max_login_attempts cfg + 1 - cur)" arbitrary: cur tr)
  case 0
  then have "\<not> cur \<le> max_login_attempts cfg" by simp
  then show ?case by (simp add: login_loop.simps[of cfg w acc px cur tr])
next
  case (Suc k)
  then have le: "cur \<le> max_login_attempts cfg" by simp
  have IH: "filter is_cycle_event (snd (login_loop cfg w acc px (cur + 1) tr')) = filter is_cycle_event tr'" for tr'
    using Suc.hyps(1)[of "cur + 1" tr'] Suc.hyps(2) by simp
  obtain r held evs where t: "login_try (w cur) cur = ((r, held), evs)"
    by (metis prod.exhaust)
  obtain hr hevs where h: "login_handler (w cur) cur held = (hr, hevs)"
    by (metis prod.exhaust)
  have e1: "filter is_cycle_event evs = []"
    using login_try_no_cycle_events[of "w cur" cur] t by simp
  have e2: "filter is_cycle_event hevs = []"
    using login_handler_no_cycle_events[of "w cur" cur held] h by simp
  show ?case
    using le t h e1 e2 IH
    by (simp add: login_loop.simps[of cfg w acc px cur tr] split: outcome.splits bool.splits)
qed

lemma login_no_cycle_events: "filter is_cycle_event (snd (login cfg w acc px)) = []"
  by (simp add: login_def login_loop_cycle_events)

text \<open>
  Claim C6. When \<open>login\<close> exhausts its attempts and returns \<open>None\<close>, \<open>process_account\<close>
  returns \<open>False\<close> and its trace holds no event of \<open>process_videos\<close>: the engagement
  cycles are never invoked.
\<close>

theorem login_failure_skips_cycles:
  assumes "fst (login cfg (attempts w) acc px) = Returns None"
  shows "fst (process_account cfg comments w acc px) = False
         \<and> filter is_cycle_event (snd (process_account cfg comments w acc px)) = []"
proof -
  obtain tr where l: "login cfg (attempts w) acc px = (Returns None, tr)"
    using assms by (metis prod.collapse)
  have "filter is_cycle_event tr = []"
    using login_no_cycle_events[of cfg "attempts w" acc px] l by simp
  then show ?thesis
    by (simp add: process_account_def l)
qed

theorem login_failure_skips_cycles_witness:
  "fst (process_account cfg2 pool2 world_login_fails alice None) = False
   \<and> filter is_cycle_event (snd (process_account cfg2 pool2 world_login_fails alice None)) = []"
proof -
  have h: "fst (login cfg2 (attempts world_login_fails) alice None) = Returns None"
    by code_simp
  show ?thesis
    using login_failure_skips_cycles[OF h, of pool2] by simp
qed

section \<open>Releasing the session\<close>

text \<open>
  \<open>close_session\<close> never raises and always calls \<open>close()\<close> on the browser once; it
  calls \<open>stop()\<close> on the driver once when that close returned, and never when it raised.
\<close>

lemma close_session_best_effort:
  "fst (close_session browser_close_raises driver_stop_raises s) = Returns ()
   \<and> close_calls (driver_instance s) (snd (close_session browser_close_raises driver_stop_raises s)) = 1
   \<and> stop_calls (driver_instance s) (snd (close_session browser_close_raises driver_stop_raises s)) =
       (if browser_close_raises then 0 else 1)"
  by (simp add: close_session_def close_session_try_def close_calls_def stop_calls_def)

text \<open>
  Claim C7 asks that an error raised while closing the browser does not keep the driver
  instance from being stopped. The code does not meet it: for a handle whose browser
  raises on \<open>close()\<close>, \<open>close_session\<close> logs the error and returns without any call to
  \<open>stop()\<close>, the two calls sharing one \<open>try\<close>.
\<close>

theorem close_session_skips_stop:
  "close_session True False session1 = (Returns (), [BrowserClose 1 False, CloseErrorLog])
   \<and> stop_calls (driver_instance session1) (snd (close_session True False session1)) = 0"
  by code_simp

lemma login_try_other_instance:
  "m \<noteq> n \<Longrightarrow> filter (is_close_of m) (snd (login_try a n)) = [] \<and>
                filter (is_stop_of m) (snd (login_try a n)) = []"
  by (cases "setup_script a") (simp_all add: login_try_def)

lemma login_handler_other_instance:
  "m \<noteq> n \<Longrightarrow> filter (is_close_of m) (snd (login_handler a n held)) = [] \<and>
                filter (is_stop_of m) (snd (login_handler a n held)) = []"
  by (simp add: login_handler_def)

lemma login_try_success_no_release:
  "fst (fst (login_try a n)) = Returns True \<Longrightarrow>
     filter (is_close_of m) (snd (login_try a n)) = [] \<and>
     filter (is_stop_of m) (snd (login_try a n)) = []"
  by (cases "setup_script a") (simp_all add: login_try_def split: if_splits)

lemma login_loop_success:
  "login_loop cfg w acc px cur tr = (Returns (Some s), tr') \<Longrightarrow>
     cur \<le> driver_instance s \<and>
     filter (is_close_of (driver_instance s)) tr' = filter (is_close_of (driver_instance s)) tr \<and>
     filter (is_stop_of (driver_instance s)) tr' = filter (is_stop_of (driver_instance s)) tr"
proof (induction "nat (max_login_attempts cfg + 1 - cur)" arbitrary: cur tr)
  case 0
  then have "\<not> cur \<le> max_login_attempts cfg" by simp
  then show ?case using "0.prems" by (simp add: login_loop.simps[of cfg w acc px cur tr])
next
  case (Suc k)
  then have le: "cur \<le> max_login_attempts cfg" by simp
  have IH: "login_loop cfg w acc px (cur + 1) tr0 = (Returns (Some s), tr') \<Longrightarrow>
     cur + 1 \<le> driver_instance s \<and>
     filter (is_close_of (driver_instance s)) tr' = filter (is_close_of (driver_instance s)) tr0 \<and>
     filter (is_stop_of (driver_instance s)) tr' = filter (is_stop_of (driver_instance s)) tr0" for tr0
    using Suc.hyps(1)[of "cur + 1" tr0] Suc.hyps(2) by simp
  obtain r held evs where t: "login_try (w cur) cur = ((r, held), evs)"
    by (metis prod.exhaust)
  obtain hr hevs where h: "login_handler (w cur) cur held = (hr, hevs)"
    by (metis prod.exhaust)
  show ?case
  proof (cases r)
    case Raises
    show ?thesis
    proof (cases hr)
      case Raises
      then show ?thesis
        using Suc.prems le t h \<open>r = Raises\<close>
        by (simp add: login_loop.simps[of cfg w acc px cur tr])
    next
      case (Returns u)
      then have rec: "login_loop cfg w acc px (cur + 1) (tr @ evs @ hevs) = (Returns (Some s), tr')"
        using Suc.prems le t h \<open>r = Raises\<close>
        by (simp add: login_loop.simps[of cfg w acc px cur tr])
      from IH[OF rec] have ne: "driver_instance s \<noteq> cur" and
        c: "filter (is_close_of (driver_instance s)) tr' = filter (is_close_of (driver_instance s)) (tr @ evs @ hevs)" and
        st: "filter (is_stop_of (driver_instance s)) tr' = filter (is_stop_of (driver_instance s)) (tr @ evs @ hevs)"
        by auto
      show ?thesis
        using IH[OF rec] c st login_try_other_instance[OF ne, of "w cur"]
          login_handler_other_instance[OF ne, of "w cur" held] t h
        by simp
    qed
  next
    case (Returns b)
    show ?thesis
    proof (cases b)
      case True
      then have "s = \<lparr>driver_instance = cur, sess_account = acc, sess_proxy = px\<rparr>" and "tr' = tr @ evs"
        using Suc.prems le t \<open>r = Returns b\<close>
        by (simp_all add: login_loop.simps[of cfg w acc px cur tr])
      then show ?thesis
        using login_try_success_no_release[of "w cur" cur] t True \<open>r = Returns b\<close> by simp
    next
      case False
      then have rec: "login_loop cfg w acc px (cur + 1) (tr @ evs) = (Returns (Some s), tr')"
        using Suc.prems le t \<open>r = Returns b\<close>
        by (simp add: login_loop.simps[of cfg w acc px cur tr])
      from IH[OF rec] have ne: "driver_instance s \<noteq> cur" by auto
      show ?thesis
        using IH[OF rec] login_try_other_instance[OF ne, of "w cur"] t
        by simp
    qed
  qed
qed

lemma run_cycle_no_release:
  "filter (is_close_of n) (snd (run_cycle cfg comments cy c)) = [] \<and>
   filter (is_stop_of n) (snd (run_cycle cfg comments cy c)) = []"
  by (simp add: run_cycle_def after_open_comments_def comment_steps_def
      split: prod.splits outcome.splits if_splits)

lemma cycles_loop_no_release:
  "filter (is_close_of n) (snd (cycles_loop cfg comments w cs)) = [] \<and>
   filter (is_stop_of n) (snd (cycles_loop cfg comments w cs)) = []"
proof (induction cs)
  case Nil
  show ?case by simp
next
  case (Cons c cs)
  then show ?case
    using run_cycle_no_release[of n cfg comments "w c" c]
    by (auto split: prod.splits outcome.splits)
qed

lemma process_videos_no_release:
  "filter (is_close_of n) (snd (process_videos cfg comments w)) = [] \<and>
   filter (is_stop_of n) (snd (process_videos cfg comments w)) = []"
  using cycles_loop_no_release[of n cfg comments w "[1..cycles_per_account cfg]"]
  by (auto simp: process_videos_def split: prod.splits outcome.splits)

lemma close_session_calls:
  "length (filter (is_close_of (driver_instance s)) (snd (close_session bc ds s))) = 1 \<and>
   length (filter (is_stop_of (driver_instance s)) (snd (close_session bc ds s))) = (if bc then 0 else 1)"
  by (simp add: close_session_def close_session_try_def)

text \<open>
  After a successful login \<open>process_account\<close> reaches \<open>close_session\<close> on every path,
  whatever happens in the cycles: the trace holds exactly one call of \<open>close()\<close> for the
  browser of the session, and one call of \<open>stop()\<close> for its driver exactly when that close
  returned.
\<close>

lemma process_account_releases:
  assumes "fst (login cfg (attempts w) acc px) = Returns (Some s)"
  shows "close_calls (driver_instance s) (snd (process_account cfg comments w acc px)) = 1
         \<and> stop_calls (driver_instance s) (snd (process_account cfg comments w acc px)) =
             (if session_close_raises w then 0 else 1)"
proof -
  obtain tr where l: "login cfg (attempts w) acc px = (Returns (Some s), tr)"
    using assms by (metis prod.collapse)
  have a: "filter (is_close_of (driver_instance s)) tr = [] \<and> filter (is_stop_of (driver_instance s)) tr = []"
    using login_loop_success[of cfg "attempts w" acc px 1 "[]" s tr] l by (simp add: login_def)
  obtain b tr2 where v: "process_videos cfg comments (cycles w) = (b, tr2)"
    by (metis prod.exhaust)
  have b: "filter (is_close_of (driver_instance s)) tr2 = [] \<and> filter (is_stop_of (driver_instance s)) tr2 = []"
    using process_videos_no_release[of "driver_instance s" cfg comments "cycles w"] v by simp
  obtain r tr3 where c: "close_session (session_close_raises w) (session_stop_raises w) s = (r, tr3)"
    by (metis prod.exhaust)
  have d: "length (filter (is_close_of (driver_instance s)) tr3) = 1 \<and>
           length (filter (is_stop_of (driver_instance s)) tr3) = (if session_close_raises w then 0 else 1)"
    using close_session_calls[of s "session_close_raises w" "session_stop_raises w"] c by simp
  have "snd (process_account cfg comments w acc px) = tr @ tr2 @ tr3"
    using l v c by (simp add: process_account_def split: outcome.splits)
  then show ?thesis
    using a b d by (simp add: close_calls_def stop_calls_def)
qed

text \<open>
  Claim C2 asks that the browser is closed and the driver stopped on every exit path
  after a successful login. The code does not meet it: the login succeeds, both cycles
  complete, \<open>close()\<close> raises inside \<open>close_session\<close>, and \<open>process_account\<close> returns
  \<open>True\<close> with the driver of the session never stopped.
\<close>

theorem process_account_leaves_driver_running:
  "fst (login cfg2 (attempts world_close_raises) alice None) = Returns (Some session1)
   \<and> process_account cfg2 pool2 world_close_raises alice None =
       (True,
        [LoginAttempt 1, DriverStart 1, BrowserLaunch 1, LoginSuccess 1,
         VideosBegin, Goto 1, OpenFirstVideo 1, OpenComments 1 True,
         PostComment 1 [104, 105] True, ReplyToComment 1 [111, 107] True, NextVideo 1 2,
         Goto 2, OpenFirstVideo 2, OpenComments 2 True,
         PostComment 2 [104, 105] True, ReplyToComment 2 [111, 107] True, NextVideo 2 2,
         VideosDone True, BrowserClose 1 False, CloseErrorLog])
   \<and> stop_calls (driver_instance session1)
         (snd (process_account cfg2 pool2 world_close_raises alice None)) = 0"
  by code_simp

section \<open>A successful login is a success\<close>

text \<open>
  Claim C9. When the login succeeds, \<open>process_account\<close> returns \<open>True\<close> whatever
  \<open>process_videos\<close> returned, and the task's result is the \<open>True\<close> that the summary of
  \<open>main\<close> counts.
\<close>

theorem login_success_counts_as_success:
  assumes "fst (login cfg (attempts w) acc px) = Returns (Some s)"
  shows "fst (process_account cfg comments w acc px) = True
         \<and> fst (process_with_semaphore cfg comments w acc px) = Returns True"
proof -
  obtain tr where l: "login cfg (attempts w) acc px = (Returns (Some s), tr)"
    using assms by (metis prod.collapse)
  have "fst (process_account cfg comments w acc px) = True"
    using l by (simp add: process_account_def close_session_def split: prod.splits outcome.splits)
  then show ?thesis
    by (cases "process_account cfg comments w acc px") (simp add: process_with_semaphore_def)
qed

theorem login_success_counts_as_success_witness:
  "fst (process_videos cfg2 pool2 (cycles world_videos_fail)) = False
   \<and> fst (process_account cfg2 pool2 world_videos_fail alice None) = True
   \<and> fst (process_with_semaphore cfg2 pool2 world_videos_fail alice None) = Returns True"
proof -
  have h: "fst (login cfg2 (attempts world_videos_fail) alice None) =
             Returns (Some \<lparr>driver_instance = 2, sess_account = alice, sess_proxy = None\<rparr>)"
    by code_simp
  have v: "fst (process_videos cfg2 pool2 (cycles world_videos_fail)) = False"
    by code_simp
  show ?thesis
    using v login_success_counts_as_success[OF h, of pool2] by simp
qed

section \<open>A cycle whose comment panel does not open\<close>

text \<open>
  Claim C8, as amended. When the click window is not empty
  (\<open>min_next_clicks \<le> max_next_clicks\<close>), a cycle that reaches \<open>_open_comments\<close> and gets
  \<open>False\<close> logs the failure, posts no comment and no reply, presses the next-video button,
  and the loop goes on with the remaining cycles.
\<close>

theorem open_comments_failure_continues:
  assumes "\<not> goto_raises (w c)" and "\<not> captcha_feed_raises (w c)" and "\<not> captcha_video_raises (w c)"
    and "\<not> comments_opened (w c)"
    and "min_next_clicks cfg \<le> max_next_clicks cfg"
  shows "run_cycle cfg comments (w c) c =
           (Returns (), [Goto c, OpenFirstVideo c, OpenComments c False, CommentsFailedLog c,
              NextVideo c (min_next_clicks cfg
                + int (clicks_pick (w c)) mod (max_next_clicks cfg - min_next_clicks cfg + 1))])
         \<and> cycles_loop cfg comments w (c # cs) =
             (fst (cycles_loop cfg comments w cs),
              snd (run_cycle cfg comments (w c) c) @ snd (cycles_loop cfg comments w cs))"
proof -
  have r: "run_cycle cfg comments (w c) c =
           (Returns (), [Goto c, OpenFirstVideo c, OpenComments c False, CommentsFailedLog c,
              NextVideo c (min_next_clicks cfg
                + int (clicks_pick (w c)) mod (max_next_clicks cfg - min_next_clicks cfg + 1))])"
    using assms by (simp add: run_cycle_def after_open_comments_def random_randint_def)
  show ?thesis
    by (simp add: r split: prod.splits)
qed

theorem open_comments_failure_continues_witness:
  "run_cycle cfg2 pool2 (cycles world_closed_panel 1) 1 =
     (Returns (), [Goto 1, OpenFirstVideo 1, OpenComments 1 False, CommentsFailedLog 1, NextVideo 1 2])
   \<and> cycles_loop cfg2 pool2 (cycles world_closed_panel) [1, 2] =
       (Returns (), [Goto 1, OpenFirstVideo 1, OpenComments 1 False, CommentsFailedLog 1, NextVideo 1 2,
                     Goto 2, OpenFirstVideo 2, OpenComments 2 False, CommentsFailedLog 2, NextVideo 2 2])"
proof -
  have h: "\<not> goto_raises (cycles world_closed_panel 1)" "\<not> captcha_feed_raises (cycles world_closed_panel 1)"
    "\<not> captcha_video_raises (cycles world_closed_panel 1)" "\<not> comments_opened (cycles world_closed_panel 1)"
    "min_next_clicks cfg2 \<le> max_next_clicks cfg2"
    by (simp_all add: world_closed_panel_def world_ok_def closed_panel_cycle_def quiet_cycle_def cfg2_def)
  have p: "clicks_pick (cycles world_closed_panel 1) = 1" "min_next_clicks cfg2 = 1" "max_next_clicks cfg2 = 3"
    by (simp_all add: world_closed_panel_def world_ok_def closed_panel_cycle_def quiet_cycle_def cfg2_def)
  have r: "cycles_loop cfg2 pool2 (cycles world_closed_panel) [2] =
     (Returns (), [Goto 2, OpenFirstVideo 2, OpenComments 2 False, CommentsFailedLog 2, NextVideo 2 2])"
    by code_simp
  show ?thesis
    using open_comments_failure_continues[where w = "cycles world_closed_panel" and c = 1
        and cfg = cfg2 and comments = pool2 and cs = "[2]", OF h] r p
    by simp
qed

text \<open>
  Claim C8 as stated fails: with \<open>min_next_clicks = 3\<close> and \<open>max_next_clicks = 1\<close>,
  \<open>random.randint\<close> raises after the failed panel, the next-video button is not pressed,
  and the loop ends in its first cycle of two.
\<close>

theorem open_comments_failure_counterexample:
  "\<not> comments_opened (cycles world_closed_panel 1)
   \<and> cycles_per_account cfg_bad_window = 2
   \<and> process_videos cfg_bad_window pool2 (cycles world_closed_panel) =
       (False, [VideosBegin, Goto 1, OpenFirstVideo 1, OpenComments 1 False, CommentsFailedLog 1,
                VideosDone False])"
  by code_simp

section \<open>The comment pool\<close>

lemma strip_blank:
  assumes "\<forall>c\<in>set l. py_isspace c"
  shows "strip l = []"
proof -
  have d: "dropWhile py_isspace l = []"
    using assms by simp
  show ?thesis unfolding strip_def d by simp
qed

lemma default_comments_length: "length default_comments = 10"
  by (simp add: default_comments_def)

text \<open>
  Claim C10. When the comments file is read without error and every line is blank, the
  pool is empty; the built-in pool is what \<open>read_comments\<close> returns when reading raises.
  With the empty pool, choosing a random comment raises, for the comment and for the
  reply alike, so a cycle whose comment panel opened raises before any comment is posted.
\<close>

theorem blank_comments_file_empty_pool:
  assumes "\<forall>l\<in>set file_lines. \<forall>c\<in>set l. py_isspace c"
  shows "read_comments (Returns file_lines) = []
         \<and> read_comments Raises = default_comments
         \<and> random_choice (read_comments (Returns file_lines)) r = Raises
         \<and> (comments_opened cy \<longrightarrow>
              after_open_comments cfg (read_comments (Returns file_lines)) cy c = (Raises, []))"
proof -
  have "\<forall>l\<in>set file_lines. strip l = []"
    using assms strip_blank by blast
  then have "filter (\<lambda>line. strip line \<noteq> []) file_lines = []"
    by simp
  then have e: "read_comments (Returns file_lines) = []"
    by (simp add: read_comments_def)
  have d: "read_comments Raises = default_comments"
    by (simp add: read_comments_def)
  show ?thesis
    unfolding e d by (simp add: random_choice_def after_open_comments_def comment_steps_def)
qed

theorem blank_comments_file_empty_pool_witness:
  "read_comments (Returns blank_lines) = []
   \<and> read_comments Raises = default_comments
   \<and> random_choice (read_comments (Returns blank_lines)) 7 = (Raises :: pystr outcome)
   \<and> after_open_comments cfg2 (read_comments (Returns blank_lines)) quiet_cycle 1 = (Raises, [])"
proof -
  have h: "\<forall>l\<in>set blank_lines. \<forall>c\<in>set l. py_isspace c"
    by (simp add: blank_lines_def py_isspace_def)
  have q: "comments_opened quiet_cycle" by (simp add: quiet_cycle_def)
  show ?thesis
    using blank_comments_file_empty_pool[OF h, of 7 quiet_cycle cfg2 1] q by blast
qed

section \<open>Proxy assignment\<close>

lemma assign_proxies_length: "length (assign_proxies accounts proxies j) = length accounts"
  by (induction accounts arbitrary: j) simp_all

lemma assign_proxies_nth:
  "i < length accounts \<Longrightarrow>
     assign_proxies accounts proxies j ! i =
       (accounts ! i, if proxies = [] then None else Some (proxies ! ((j + i) mod length proxies)))"
proof (induction accounts arbitrary: i j)
  case Nil
  then show ?case by simp
next
  case (Cons a as)
  show ?case
  proof (cases i)
    case 0
    then show ?thesis by simp
  next
    case (Suc k)
    then have "k < length as" using Cons.prems by simp
    from Cons.IH[OF this, of "j + 1"] show ?thesis using Suc by simp
  qed
qed

text \<open>
  Claim C5. The account at index \<open>i\<close> is paired with the proxy at index
  \<open>i mod length proxies\<close> when the proxy list is not empty, and with no proxy when it is
  empty. The pairing is a function of the two lists alone.
\<close>

theorem proxy_round_robin:
  assumes "i < length accounts"
  shows "assign_proxies accounts proxies 0 ! i =
           (accounts ! i, if proxies = [] then None else Some (proxies ! (i mod length proxies)))
         \<and> length (assign_proxies accounts proxies 0) = length accounts"
  using assign_proxies_nth[OF assms, of proxies 0] by (simp add: assign_proxies_length)

theorem proxy_round_robin_witness:
  "assign_proxies [alice, bob, carol] [proxy_a, proxy_b] 0 ! 2 = (carol, Some proxy_a)
   \<and> length (assign_proxies [alice, bob, carol] [proxy_a, proxy_b] 0) = 3"
proof -
  have h: "2 < length [alice, bob, carol]" by simp
  show ?thesis
    using proxy_round_robin[OF h, of "[proxy_a, proxy_b]"] by simp
qed

section \<open>The summary of the orchestrator\<close>

text \<open>
  Claim C4, as amended. For a non-empty account list and a gate of at least one permit,
  \<open>main\<close> ends in a summary with one result per account, in the order of the accounts;
  the result at index \<open>i\<close> is that of the task of account \<open>i\<close> run against the world of
  account \<open>i\<close> alone; the processed count is the number of accounts and the success count
  is the number of results that are \<open>True\<close>.
\<close>

theorem main_summary:
  assumes "accounts \<noteq> []" and "1 \<le> max_concurrent_accounts cfg"
  shows "main cfg comments accounts proxies ws =
           Summary \<lparr>results =
                      map (\<lambda>i. fst (process_with_semaphore cfg comments (ws i) (accounts ! i)
                                  (if proxies = [] then None
                                   else Some (proxies ! (i mod length proxies)))))
                        [0..<length accounts],
                    processed = length accounts,
                    success_count = length (filter (\<lambda>r. r = Returns True)
                      (map (\<lambda>i. fst (process_with_semaphore cfg comments (ws i) (accounts ! i)
                                  (if proxies = [] then None
                                   else Some (proxies ! (i mod length proxies)))))
                        [0..<length accounts]))\<rparr>"
proof -
  let ?rs = "map (\<lambda>(i, (acc, px)). fst (process_with_semaphore cfg comments (ws i) acc px))
                (List.enumerate 0 (assign_proxies accounts proxies 0))"
  let ?rs' = "map (\<lambda>i. fst (process_with_semaphore cfg comments (ws i) (accounts ! i)
                                  (if proxies = [] then None
                                   else Some (proxies ! (i mod length proxies)))))
                        [0..<length accounts]"
  have m: "main cfg comments accounts proxies ws =
             Summary \<lparr>results = ?rs, processed = length accounts,
                      success_count = length (filter (\<lambda>r. r = Returns True) ?rs)\<rparr>"
    using assms by (simp add: main_def Semaphore_def Let_def)
  have "?rs = ?rs'"
  proof (rule nth_equalityI)
    show "length ?rs = length ?rs'" by (simp add: assign_proxies_length)
  next
    fix i assume "i < length ?rs"
    then have i: "i < length accounts" by (simp add: assign_proxies_length)
    show "?rs ! i = ?rs' ! i"
      using i assign_proxies_nth[OF i, of proxies 0]
      by (simp add: assign_proxies_length nth_enumerate_eq)
  qed
  then show ?thesis using m by simp
qed

theorem main_summary_witness:
  "main cfg2 pool2 [alice, bob] [proxy_a] (\<lambda>i. if i = 0 then world_ok else world_login_fails) =
     Summary \<lparr>results = [Returns True, Returns False], processed = 2, success_count = 1\<rparr>"
proof -
  have a: "[alice, bob] \<noteq> []" by simp
  have c: "1 \<le> max_concurrent_accounts cfg2" by (simp add: cfg2_def)
  have r0: "fst (process_with_semaphore cfg2 pool2 world_ok alice (Some proxy_a)) = Returns True"
    by code_simp
  have r1: "fst (process_with_semaphore cfg2 pool2 world_login_fails bob (Some proxy_a)) = Returns False"
    by code_simp
  have u: "[0..<2] = [0, Suc 0]" by (simp add: upt_rec)
  show ?thesis
    using main_summary[OF a c, of pool2 "[proxy_a]" "\<lambda>i. if i = 0 then world_ok else world_login_fails"] r0 r1
    by (simp add: u)
qed

text \<open>
  Claim C4 as stated fails for the empty account list: \<open>main\<close> returns before the gate
  is created and reports no counts.
\<close>

theorem main_empty_accounts_counterexample:
  "main cfg2 pool2 [] [proxy_a] (\<lambda>i. world_ok) = NoAccounts"
  by (simp add: main_def)

section \<open>The counting gate\<close>

lemma task_actions_gated:
  "task_actions cfg comments w acc px =
     gated (snd (process_with_semaphore cfg comments w acc px))
           (fst (process_with_semaphore cfg comments w acc px))"
  by (cases "process_with_semaphore cfg comments w acc px") (simp add: task_actions_def gated_def)




















lemma gather_init_pending:
  assumes "i < length accounts"
  shows "pending (gather_init cfg comments ws accounts proxies c) ! i =
           task_actions cfg comments (ws i) (accounts ! i)
             (if proxies = [] then None else Some (proxies ! (i mod length proxies)))"
  using assms assign_proxies_nth[OF assms, of proxies 0]
  by (simp add: gather_init_def assign_proxies_length nth_enumerate_eq)



lemma gate_without_permits_blocks:
  assumes "i < length accounts"
  shows "loop_step (gather_init cfg comments ws accounts proxies 0) i = None"
proof -
  have "pending (gather_init cfg comments ws accounts proxies 0) ! i =
          gated (snd (process_with_semaphore cfg comments (ws i) (accounts ! i)
                   (if proxies = [] then None else Some (proxies ! (i mod length proxies)))))
                (fst (process_with_semaphore cfg comments (ws i) (accounts ! i)
                   (if proxies = [] then None else Some (proxies ! (i mod length proxies)))))"
    using gather_init_pending[OF assms] by (simp add: task_actions_gated)
  then show ?thesis
    by (simp add: loop_step_def gated_def gather_init_def)
qed



end
